theory Spec2Isabelle
  imports
    Complex_Main
    "HOL-Library.Word"
    "HOL-Library.List_Lexorder"
    "HOL-Library.Sublist"
    "HOL-Library.AList"
begin

unbundle bit_operations_syntax

section \<open>Python values used by make_manifest.py\<close>

text \<open>
  A Python \<^verbatim>\<open>str\<close> is a sequence of Unicode code points; it is modelled as a list of
  natural numbers, compared lexicographically by code point as Python compares strings.
  A \<^verbatim>\<open>bytes\<close> object, and the ASCII text the program writes to the manifest file, is
  a list of bytes, for which the 8-bit characters of HOL are used. \<open>str\<close> turns an ASCII
  literal into the Python string with the same code points.
\<close>

type_synonym pystr = "nat list"

type_synonym bytes = "char list"

definition str :: "string \<Rightarrow> pystr" where
  "str s = map of_char s"

text \<open>The exceptions that can escape from \<^verbatim>\<open>main\<close>.\<close>

datatype exc = OSError | ValueError

text \<open>
  \<^verbatim>\<open>s.startswith(p)\<close> and \<^verbatim>\<open>s.endswith(p)\<close>: the tail of \<open>s\<close> of the length of \<open>p\<close> is
  compared with \<open>p\<close>, element by element.
\<close>

definition startswith :: "'a list \<Rightarrow> 'a list \<Rightarrow> bool" where
  "startswith s p = (length p \<le> length s \<and> take (length p) s = p)"

definition endswith :: "'a list \<Rightarrow> 'a list \<Rightarrow> bool" where
  "endswith s p = (length p \<le> length s \<and> drop (length s - length p) s = p)"

text \<open>
  \<^verbatim>\<open>os.path.join(a, b)\<close> on POSIX (posixpath.join with one component): an absolute
  \<open>b\<close> replaces \<open>a\<close>; otherwise the two are joined with one separator, none when \<open>a\<close> is
  empty or already ends with one.
\<close>

definition sep :: nat where
  "sep = 47"

definition join :: "pystr \<Rightarrow> pystr \<Rightarrow> pystr" where
  "join a b =
     (if startswith b [sep] then b
      else if a = [] \<or> endswith a [sep] then a @ b
      else a @ [sep] @ b)"

section \<open>hashlib.sha256\<close>

text \<open>
  SHA-256 as FIPS 180-4 defines it, on 32-bit words. The hash object of hashlib is
  modelled by the bytes fed to it so far: \<^verbatim>\<open>update\<close> appends, and \<^verbatim>\<open>hexdigest\<close> is the
  lowercase hexadecimal digest of everything fed.
\<close>

definition K256 :: "32 word list" where
  "K256 =
     [0x428a2f98, 0x71374491, 0xb5c0fbcf, 0xe9b5dba5, 0x3956c25b, 0x59f111f1, 0x923f82a4, 0xab1c5ed5]
     @ [0xd807aa98, 0x12835b01, 0x243185be, 0x550c7dc3, 0x72be5d74, 0x80deb1fe, 0x9bdc06a7, 0xc19bf174]
     @ [0xe49b69c1, 0xefbe4786, 0x0fc19dc6, 0x240ca1cc, 0x2de92c6f, 0x4a7484aa, 0x5cb0a9dc, 0x76f988da]
     @ [0x983e5152, 0xa831c66d, 0xb00327c8, 0xbf597fc7, 0xc6e00bf3, 0xd5a79147, 0x06ca6351, 0x14292967]
     @ [0x27b70a85, 0x2e1b2138, 0x4d2c6dfc, 0x53380d13, 0x650a7354, 0x766a0abb, 0x81c2c92e, 0x92722c85]
     @ [0xa2bfe8a1, 0xa81a664b, 0xc24b8b70, 0xc76c51a3, 0xd192e819, 0xd6990624, 0xf40e3585, 0x106aa070]
     @ [0x19a4c116, 0x1e376c08, 0x2748774c, 0x34b0bcb5, 0x391c0cb3, 0x4ed8aa4a, 0x5b9cca4f, 0x682e6ff3]
     @ [0x748f82ee, 0x78a5636f, 0x84c87814, 0x8cc70208, 0x90befffa, 0xa4506ceb, 0xbef9a3f7, 0xc67178f2]"

type_synonym sha_state =
  "32 word \<times> 32 word \<times> 32 word \<times> 32 word \<times> 32 word \<times> 32 word \<times> 32 word \<times> 32 word"

definition H256 :: sha_state where
  "H256 =
    (0x6a09e667, 0xbb67ae85, 0x3c6ef372, 0xa54ff53a,
     0x510e527f, 0x9b05688c, 0x1f83d9ab, 0x5be0cd19)"

definition Ch :: "32 word \<Rightarrow> 32 word \<Rightarrow> 32 word \<Rightarrow> 32 word" where
  "Ch x y z = (x AND y) XOR (NOT x AND z)"

definition Maj :: "32 word \<Rightarrow> 32 word \<Rightarrow> 32 word \<Rightarrow> 32 word" where
  "Maj x y z = (x AND y) XOR (x AND z) XOR (y AND z)"

definition bsig0 :: "32 word \<Rightarrow> 32 word" where
  "bsig0 x = word_rotr 2 x XOR word_rotr 13 x XOR word_rotr 22 x"

definition bsig1 :: "32 word \<Rightarrow> 32 word" where
  "bsig1 x = word_rotr 6 x XOR word_rotr 11 x XOR word_rotr 25 x"

definition ssig0 :: "32 word \<Rightarrow> 32 word" where
  "ssig0 x = word_rotr 7 x XOR word_rotr 18 x XOR drop_bit 3 x"

definition ssig1 :: "32 word \<Rightarrow> 32 word" where
  "ssig1 x = word_rotr 17 x XOR word_rotr 19 x XOR drop_bit 10 x"

text \<open>The padded message: a 1 bit, zero bits, and the bit length in 64 bits, big-endian.\<close>

definition be64 :: "nat \<Rightarrow> bytes" where
  "be64 n = map (\<lambda>i. char_of (n div 256 ^ (7 - i))) [0..<8]"

definition sha_pad :: "bytes \<Rightarrow> bytes" where
  "sha_pad m =
     m @ [CHR 0x80] @ replicate ((119 - length m mod 64) mod 64) (CHR 0x00)
       @ be64 (8 * length m)"

definition be32 :: "bytes \<Rightarrow> 32 word" where
  "be32 bs = foldl (\<lambda>acc b. acc * 256 + of_char b) 0 bs"

definition sha_blocks :: "bytes \<Rightarrow> 32 word list list" where
  "sha_blocks m =
     map (\<lambda>i. map (\<lambda>j. be32 (take 4 (drop (64 * i + 4 * j) m))) [0..<16])
       [0..<length m div 64]"

fun extend_schedule :: "nat \<Rightarrow> 32 word list \<Rightarrow> 32 word list" where
  "extend_schedule 0 w = w"
| "extend_schedule (Suc k) w =
     (let t = length w
      in extend_schedule k
           (w @ [ssig1 (w ! (t - 2)) + w ! (t - 7) + ssig0 (w ! (t - 15)) + w ! (t - 16)]))"

fun sha_round :: "sha_state \<Rightarrow> 32 word \<times> 32 word \<Rightarrow> sha_state" where
  "sha_round (a, b, c, d, e, f, g, h) (k, w) =
     (let t1 = h + bsig1 e + Ch e f g + k + w;
          t2 = bsig0 a + Maj a b c
      in (t1 + t2, a, b, c, d + t1, e, f, g))"

fun add_state :: "sha_state \<Rightarrow> sha_state \<Rightarrow> sha_state" where
  "add_state (a, b, c, d, e, f, g, h) (a', b', c', d', e', f', g', h') =
     (a + a', b + b', c + c', d + d', e + e', f + f', g + g', h + h')"

definition compress :: "sha_state \<Rightarrow> 32 word list \<Rightarrow> sha_state" where
  "compress H block = add_state H (foldl sha_round H (zip K256 (extend_schedule 48 block)))"

definition sha256_words :: "bytes \<Rightarrow> sha_state" where
  "sha256_words m = foldl compress H256 (sha_blocks (sha_pad m))"

definition hexdigit :: "nat \<Rightarrow> char" where
  "hexdigit n = ''0123456789abcdef'' ! (n mod 16)"

definition hex32 :: "32 word \<Rightarrow> string" where
  "hex32 w = map (\<lambda>i. hexdigit (unat (drop_bit (4 * (7 - i)) w))) [0..<8]"

fun hex_state :: "sha_state \<Rightarrow> string" where
  "hex_state (a, b, c, d, e, f, g, h) =
     hex32 a @ hex32 b @ hex32 c @ hex32 d @ hex32 e @ hex32 f @ hex32 g @ hex32 h"

definition sha256_hex :: "bytes \<Rightarrow> string" where
  "sha256_hex m = hex_state (sha256_words m)"

type_synonym sha256_obj = bytes

definition sha256_new :: sha256_obj where
  "sha256_new = []"

definition sha_update :: "sha256_obj \<Rightarrow> bytes \<Rightarrow> sha256_obj" where
  "sha_update h chunk = h @ chunk"

definition hexdigest :: "sha256_obj \<Rightarrow> string" where
  "hexdigest h = sha256_hex h"

section \<open>The file system\<close>

text \<open>
  The file system is a snapshot: an association list from path strings to nodes. A path
  names a node by its string; relative paths and symbolic links are not resolved by the
  model, so \<open>abspath\<close> (which depends on the working directory of the process) is a
  component of the world. A node is what \<^verbatim>\<open>stat\<close> reports after following links: a
  regular file, a directory, or anything else. A regular file carries its bytes and its
  modification time, and the faults that the operating system may answer with:
  \<open>stat_fault\<close> makes \<^verbatim>\<open>os.stat\<close> raise, \<open>open_fault\<close> makes \<^verbatim>\<open>open\<close> raise, and
  \<open>read_fault = Some k\<close> makes every \<^verbatim>\<open>read\<close> that starts at offset \<open>k\<close> or later raise.
  The flag of a directory makes \<^verbatim>\<open>os.listdir\<close> raise. Only regular files carry metadata:
  the program calls \<^verbatim>\<open>os.stat\<close> and \<^verbatim>\<open>open\<close> only on paths for which \<^verbatim>\<open>os.path.isfile\<close>
  holds.

  \<^verbatim>\<open>os.path.isfile\<close> is itself a call of \<^verbatim>\<open>os.stat\<close>: it answers \<^verbatim>\<open>False\<close> when the call
  raises \<^verbatim>\<open>OSError\<close> (no such path, or a path that cannot be stat-ed) and otherwise tells
  whether the mode is that of a regular file. So a regular file with \<open>stat_fault\<close> is not a
  file for it, just as a path that has no node.
\<close>

record regfile =
  content :: bytes
  mtime :: rat
  stat_fault :: bool
  open_fault :: bool
  read_fault :: "nat option"

datatype node = Regular regfile | Directory bool | Other

record world =
  nodes :: "(pystr \<times> node) list"
  abspath :: "pystr \<Rightarrow> pystr"
  write_denied :: "pystr \<Rightarrow> bool"
  clock :: rat

definition isdir :: "world \<Rightarrow> pystr \<Rightarrow> bool" where
  "isdir w p = (case map_of (nodes w) p of Some (Directory _) \<Rightarrow> True | _ \<Rightarrow> False)"

definition isfile :: "world \<Rightarrow> pystr \<Rightarrow> bool" where
  "isfile w p =
     (case map_of (nodes w) p of Some (Regular f) \<Rightarrow> \<not> stat_fault f | _ \<Rightarrow> False)"

text \<open>
  The entries of a directory \<open>d\<close> are the names \<open>n\<close>, non-empty and without a separator,
  for which the path \<open>join d n\<close> has a node. \<^verbatim>\<open>os.listdir\<close> returns them once each, in
  an order of the file system's choosing (here: the order of the association list).
\<close>

definition child_name :: "pystr \<Rightarrow> pystr \<Rightarrow> pystr option" where
  "child_name d p =
     (let pre = join d []; n = drop (length pre) p
      in if startswith p pre \<and> n \<noteq> [] \<and> sep \<notin> set n then Some n else None)"

definition listdir :: "world \<Rightarrow> pystr \<Rightarrow> exc + pystr list" where
  "listdir w d =
     (case map_of (nodes w) d of
        Some (Directory denied) \<Rightarrow>
          if denied then Inl OSError
          else Inr (remdups (List.map_filter (child_name d) (map fst (nodes w))))
      | _ \<Rightarrow> Inl OSError)"

record stat_result =
  st_size :: nat
  st_mtime :: rat

definition os_stat :: "world \<Rightarrow> pystr \<Rightarrow> exc + stat_result" where
  "os_stat w p =
     (case map_of (nodes w) p of
        Some (Regular f) \<Rightarrow>
          if stat_fault f then Inl OSError
          else Inr \<lparr>st_size = length (content f), st_mtime = mtime f\<rparr>
      | _ \<Rightarrow> Inl OSError)"

definition open_rb :: "world \<Rightarrow> pystr \<Rightarrow> exc + regfile" where
  "open_rb w p =
     (case map_of (nodes w) p of
        Some (Regular f) \<Rightarrow> if open_fault f then Inl OSError else Inr f
      | _ \<Rightarrow> Inl OSError)"

text \<open>\<^verbatim>\<open>f.read(n)\<close> at offset \<open>pos\<close>: at most \<open>n\<close> bytes, none at the end of the file.\<close>

definition fread :: "regfile \<Rightarrow> nat \<Rightarrow> nat \<Rightarrow> exc + bytes" where
  "fread f pos n =
     (if (case read_fault f of None \<Rightarrow> False | Some k \<Rightarrow> k \<le> pos) then Inl OSError
      else Inr (take n (drop pos (content f))))"

text \<open>
  \<^verbatim>\<open>open(out_path, "w")\<close> followed by the writes and the close: the path becomes a regular
  file with the text written. Opening a directory raises; a special file takes the text
  and stays what it is. A write that fails half-way is not modelled.
\<close>

definition write_text :: "world \<Rightarrow> pystr \<Rightarrow> bytes \<Rightarrow> exc + world" where
  "write_text w p data =
     (if write_denied w p then Inl OSError
      else case map_of (nodes w) p of
        Some (Directory _) \<Rightarrow> Inl OSError
      | Some Other \<Rightarrow> Inr w
      | _ \<Rightarrow>
          Inr (w\<lparr>nodes :=
            AList.update p
              (Regular \<lparr>content = data, mtime = clock w, stat_fault = False,
                 open_fault = False, read_fault = None\<rparr>)
              (nodes w)\<rparr>))"

section \<open>sha256\_file\<close>

text \<open>
  The loop \<^verbatim>\<open>for chunk in iter(lambda: f.read(1024 * 1024), b"")\<close>: read, stop at the
  first empty chunk, feed every other chunk to the hash object.
\<close>

function read_loop :: "regfile \<Rightarrow> nat \<Rightarrow> nat \<Rightarrow> sha256_obj \<Rightarrow> exc + sha256_obj" where
  "read_loop f n pos h =
     (case fread f pos n of
        Inl e \<Rightarrow> Inl e
      | Inr chunk \<Rightarrow>
          if chunk = [] then Inr h
          else read_loop f n (pos + length chunk) (sha_update h chunk))"
  by pat_completeness auto
termination
proof (relation "measure (\<lambda>(f, n, pos, h). length (content f) - pos)")
  show "wf (measure (\<lambda>(f, n, pos, h). length (content f) - pos))"
    by simp
next
  fix f :: regfile and n pos :: nat and h :: sha256_obj and chunk :: bytes
  assume r: "fread f pos n = Inr chunk" and ne: "chunk \<noteq> []"
  from r have c: "chunk = take n (drop pos (content f))"
    by (simp add: fread_def split: if_splits)
  with ne have "pos < length (content f)"
    by (cases "pos < length (content f)") auto
  moreover from ne have "Suc 0 \<le> length chunk"
    by (cases chunk) auto
  ultimately have "length (content f) - (pos + length chunk) < length (content f) - pos"
    by linarith
  then show "((f, n, pos + length chunk, sha_update h chunk), (f, n, pos, h))
      \<in> measure (\<lambda>(f, n, pos, h). length (content f) - pos)"
    by simp
qed

definition sha256_file :: "world \<Rightarrow> pystr \<Rightarrow> exc + string" where
  "sha256_file w path =
     (case open_rb w path of
        Inl e \<Rightarrow> Inl e
      | Inr f \<Rightarrow>
          (case read_loop f (1024 * 1024) 0 sha256_new of
             Inl e \<Rightarrow> Inl e
           | Inr h \<Rightarrow> Inr (hexdigest h)))"


section \<open>iso8601\_utc\<close>

text \<open>
  A Python \<^verbatim>\<open>float\<close> is modelled by the rational number it stands for.
  \<^verbatim>\<open>datetime.fromtimestamp(ts, tz=timezone.utc)\<close> splits the timestamp with \<^verbatim>\<open>modf\<close>,
  rounds the fraction to microseconds with \<^verbatim>\<open>round\<close> (ties to even), carries into the
  seconds, and converts the seconds with \<^verbatim>\<open>gmtime\<close>; a year outside 1..9999 raises.
  The calendar is the proleptic Gregorian one, computed as datetime's own
  \<^verbatim>\<open>_ord2ymd\<close> does from the ordinal of the day (1 January of year 1 is day 1,
  1 January 1970 is day 719163).
\<close>

record datetime =
  year :: int
  month :: int
  day :: int
  hour :: int
  minute :: int
  second :: int
  microsecond :: int

definition py_round :: "rat \<Rightarrow> int" where
  "py_round x =
     (let f = \<lfloor>x\<rfloor>; d = x - of_int f
      in if d < 1 / 2 then f else if 1 / 2 < d then f + 1 else if even f then f else f + 1)"

definition py_trunc :: "rat \<Rightarrow> int" where
  "py_trunc x = (if 0 \<le> x then \<lfloor>x\<rfloor> else \<lceil>x\<rceil>)"

definition days_in_month :: "int \<Rightarrow> int" where
  "days_in_month m = [-1, 31, 28, 31, 30, 31, 30, 31, 31, 30, 31, 30, 31] ! nat m"

definition days_before_month :: "int \<Rightarrow> int" where
  "days_before_month m = [-1, 0, 31, 59, 90, 120, 151, 181, 212, 243, 273, 304, 334] ! nat m"

definition ord2ymd :: "int \<Rightarrow> int \<times> int \<times> int" where
  "ord2ymd n0 =
     (let n1 = n0 - 1;
          n400 = n1 div 146097; n2 = n1 mod 146097;
          n100 = n2 div 36524; n3 = n2 mod 36524;
          n4 = n3 div 1461; n5 = n3 mod 1461;
          n1y = n5 div 365; n = n5 mod 365;
          y = n400 * 400 + 1 + n100 * 100 + n4 * 4 + n1y
      in if n1y = 4 \<or> n100 = 4 then (y - 1, 12, 31)
         else
           let leapyear = (n1y = 3 \<and> (n4 \<noteq> 24 \<or> n100 = 3));
               m = (n + 50) div 32;
               preceding = days_before_month m + (if 2 < m \<and> leapyear then 1 else 0)
           in if n < preceding
              then
                let m' = m - 1;
                    preceding' =
                      preceding - (days_in_month m' + (if m' = 2 \<and> leapyear then 1 else 0))
                in (y, m', n - preceding' + 1)
              else (y, m, n - preceding + 1))"

definition fromtimestamp_utc :: "rat \<Rightarrow> exc + datetime" where
  "fromtimestamp_utc ts =
     (let t0 = py_trunc ts;
          us0 = py_round ((ts - of_int t0) * 1000000);
          t = (if 1000000 \<le> us0 then t0 + 1 else if us0 < 0 then t0 - 1 else t0);
          us = (if 1000000 \<le> us0 then us0 - 1000000
                else if us0 < 0 then us0 + 1000000 else us0);
          ymd = ord2ymd (t div 86400 + 719163);
          sod = t mod 86400
      in if fst ymd < 1 \<or> 9999 < fst ymd then Inl ValueError
         else Inr \<lparr>year = fst ymd, month = fst (snd ymd), day = snd (snd ymd),
                hour = sod div 3600, minute = sod mod 3600 div 60, second = sod mod 60,
                microsecond = us\<rparr>)"

text \<open>Decimal digits, and the conversions \<^verbatim>\<open>%0wd\<close> and \<^verbatim>\<open>repr\<close> of an integer.\<close>

definition digit_char :: "nat \<Rightarrow> char" where
  "digit_char n = ''0123456789'' ! (n mod 10)"

fun dec :: "nat \<Rightarrow> string" where
  "dec n = (if n < 10 then [digit_char n] else dec (n div 10) @ [digit_char n])"

definition zfill :: "nat \<Rightarrow> string \<Rightarrow> string" where
  "zfill w s = replicate (w - length s) CHR ''0'' @ s"

definition fmt_d :: "nat \<Rightarrow> int \<Rightarrow> string" where
  "fmt_d w i = (if i < 0 then CHR ''-'' # zfill (w - 1) (dec (nat (- i))) else zfill w (dec (nat i)))"

definition show_int :: "int \<Rightarrow> string" where
  "show_int i = (if i < 0 then CHR ''-'' # dec (nat (- i)) else dec (nat i))"

text \<open>
  \<^verbatim>\<open>isoformat()\<close> of an aware datetime in UTC: the microseconds are printed only when
  they are not zero, and the offset is printed as \<^verbatim>\<open>+00:00\<close>.
\<close>

definition isoformat :: "datetime \<Rightarrow> string" where
  "isoformat dt =
     fmt_d 4 (year dt) @ ''-'' @ fmt_d 2 (month dt) @ ''-'' @ fmt_d 2 (day dt) @ ''T''
       @ fmt_d 2 (hour dt) @ '':'' @ fmt_d 2 (minute dt) @ '':'' @ fmt_d 2 (second dt)
       @ (if microsecond dt \<noteq> 0 then ''.'' @ fmt_d 6 (microsecond dt) else [])
       @ ''+00:00''"

text \<open>
  \<^verbatim>\<open>s.replace(old, new)\<close>: every occurrence of \<open>old\<close>, found from left to right without
  overlap, is replaced; an empty \<open>old\<close> matches before every element and at the end.
\<close>

function replace_ne :: "'a list \<Rightarrow> 'a list \<Rightarrow> 'a list \<Rightarrow> 'a list" where
  "replace_ne old new [] = []"
| "replace_ne old new (c # cs) =
     (if old \<noteq> [] \<and> startswith (c # cs) old
      then new @ replace_ne old new (drop (length old) (c # cs))
      else c # replace_ne old new cs)"
  by pat_completeness auto
termination
proof (relation "measure (\<lambda>(old, new, s). length s)")
  show "wf (measure (\<lambda>(old, new, s). length s))"
    by simp
next
  fix old new :: "'a list" and c :: 'a and cs :: "'a list"
  assume "old \<noteq> [] \<and> startswith (c # cs) old"
  then have "Suc 0 \<le> length old"
    by (cases old) auto
  then have "length (drop (length old) (c # cs)) < length (c # cs)"
    by simp
  then show "((old, new, drop (length old) (c # cs)), (old, new, c # cs))
      \<in> measure (\<lambda>(old, new, s). length s)"
    by simp
next
  fix old new :: "'a list" and c :: 'a and cs :: "'a list"
  show "((old, new, cs), (old, new, c # cs)) \<in> measure (\<lambda>(old, new, s). length s)"
    by simp
qed

definition py_replace :: "'a list \<Rightarrow> 'a list \<Rightarrow> 'a list \<Rightarrow> 'a list" where
  "py_replace old new s =
     (if old = [] then new @ concat (map (\<lambda>c. c # new) s) else replace_ne old new s)"

definition iso8601_utc :: "rat \<Rightarrow> exc + string" where
  "iso8601_utc ts =
     (case fromtimestamp_utc ts of
        Inl e \<Rightarrow> Inl e
      | Inr dt \<Rightarrow> Inr (py_replace ''+00:00'' ''Z'' (isoformat (dt\<lparr>microsecond := 0\<rparr>))))"


section \<open>json.dump\<close>

text \<open>
  The values the program serialises: strings, integers, and dictionaries with string
  keys. A dictionary keeps its items in insertion order; assigning to a key that is
  present replaces the value in place, assigning to a new key appends the item.
\<close>

datatype json = JStr pystr | JInt int | JObj "(pystr \<times> json) list"

definition dict_set :: "('k \<times> 'v) list \<Rightarrow> 'k \<Rightarrow> 'v \<Rightarrow> ('k \<times> 'v) list" where
  "dict_set d k v = AList.update k v d"

definition dq :: char where
  "dq = CHR 0x22"

definition backslash :: char where
  "backslash = CHR 0x5C"

definition newline :: char where
  "newline = CHR 0x0A"

text \<open>
  String literals with \<^verbatim>\<open>ensure_ascii=True\<close>: the quote, the backslash and five control
  characters have short escapes, the other printable ASCII characters stand for
  themselves, and every other code point is written as \<^verbatim>\<open>\uXXXX\<close>, as a surrogate pair
  beyond the basic plane.
\<close>

definition hex4 :: "nat \<Rightarrow> string" where
  "hex4 n = map (\<lambda>i. hexdigit (n div 16 ^ (3 - i))) [0..<4]"

definition esc_u :: "nat \<Rightarrow> string" where
  "esc_u n = [backslash, CHR ''u''] @ hex4 n"

definition esc_char :: "nat \<Rightarrow> string" where
  "esc_char c =
     (if c = 0x5C then [backslash, backslash]
      else if c = 0x22 then [backslash, dq]
      else if c = 0x08 then [backslash, CHR ''b'']
      else if c = 0x0C then [backslash, CHR ''f'']
      else if c = 0x0A then [backslash, CHR ''n'']
      else if c = 0x0D then [backslash, CHR ''r'']
      else if c = 0x09 then [backslash, CHR ''t'']
      else if 0x20 \<le> c \<and> c \<le> 0x7E then [char_of c]
      else if c < 0x10000 then esc_u c
      else
        let v = c - 0x10000
        in esc_u (0xD800 + (v div 1024) mod 1024) @ esc_u (0xDC00 + v mod 1024))"

definition encode_str :: "pystr \<Rightarrow> string" where
  "encode_str s = [dq] @ concat (map esc_char s) @ [dq]"

fun py_join :: "'a list \<Rightarrow> 'a list list \<Rightarrow> 'a list" where
  "py_join s [] = []"
| "py_join s [x] = x"
| "py_join s (x # y # ys) = x @ s @ py_join s (y # ys)"

text \<open>
  The encoder, with the parameters \<^verbatim>\<open>indent\<close> and \<^verbatim>\<open>sort_keys\<close> of \<^verbatim>\<open>json.dump\<close> and the
  current nesting level. Without an indent the separators are \<^verbatim>\<open>", "\<close> and \<^verbatim>\<open>": "\<close>;
  with an indent every item starts a line of its own and the item separator is
  \<^verbatim>\<open>","\<close>. An empty dictionary is \<^verbatim>\<open>{}\<close> in both cases.
\<close>

definition newline_indent :: "nat option \<Rightarrow> nat \<Rightarrow> string" where
  "newline_indent ind lvl =
     (case ind of None \<Rightarrow> [] | Some k \<Rightarrow> newline # replicate (k * lvl) CHR '' '')"

definition item_separator :: "nat option \<Rightarrow> nat \<Rightarrow> string" where
  "item_separator ind lvl =
     (case ind of None \<Rightarrow> '', '' | Some k \<Rightarrow> '','' @ newline_indent ind lvl)"

function encode :: "nat option \<Rightarrow> bool \<Rightarrow> nat \<Rightarrow> json \<Rightarrow> string" where
  "encode ind sk lvl (JStr s) = encode_str s"
| "encode ind sk lvl (JInt i) = show_int i"
| "encode ind sk lvl (JObj kvs) =
     (if kvs = [] then ''{}''
      else
        ''{'' @ newline_indent ind (Suc lvl)
          @ py_join (item_separator ind (Suc lvl))
              (map (\<lambda>kv. encode_str (fst kv) @ '': '' @ encode ind sk (Suc lvl) (snd kv))
                 (if sk then sort_key fst kvs else kvs))
          @ newline_indent ind lvl @ ''}'')"
  by pat_completeness auto
termination
proof (relation "measure (\<lambda>(ind, sk, lvl, v). size v)")
  show "wf (measure (\<lambda>(ind, sk, lvl, v). size v))"
    by simp
next
  fix ind :: "nat option" and sk :: bool and lvl :: nat
    and kvs :: "(pystr \<times> json) list" and kv :: "pystr \<times> json"
  assume "kv \<in> set (if sk then sort_key fst kvs else kvs)"
  then have "kv \<in> set kvs"
    by (simp split: if_splits)
  then have "size (snd kv) < size (JObj kvs)"
    by (induction kvs) auto
  then show "((ind, sk, Suc lvl, snd kv), (ind, sk, lvl, JObj kvs))
      \<in> measure (\<lambda>(ind, sk, lvl, v). size v)"
    by simp
qed

definition dumps :: "bool \<Rightarrow> (pystr \<times> json) list \<Rightarrow> string" where
  "dumps pretty manifest =
     (if pretty then encode (Some 2) True 0 (JObj manifest)
      else encode None False 0 (JObj manifest))"

section \<open>main\<close>

text \<open>The arguments as argparse delivers them.\<close>

record args =
  a_dir :: pystr
  a_out :: "pystr option"
  a_pattern :: pystr
  a_pretty :: bool

text \<open>
  The loop of \<^verbatim>\<open>main\<close> over the sorted names. A name that does not end with the pattern or
  for which \<^verbatim>\<open>os.path.isfile\<close> is false is skipped; for the others the file is stat-ed, its time is
  formatted, and its content is hashed, in this order; the first exception ends the loop.
\<close>

definition entry :: "string \<Rightarrow> nat \<Rightarrow> string \<Rightarrow> json" where
  "entry digest sz mt =
     JObj [(str ''version'', JStr (str digest)), (str ''size'', JInt (int sz)),
           (str ''mtime'', JStr (str mt)), (str ''sha256'', JStr (str digest))]"

fun build_manifest ::
  "world \<Rightarrow> pystr \<Rightarrow> pystr \<Rightarrow> (pystr \<times> json) list \<Rightarrow> pystr list
     \<Rightarrow> exc + (pystr \<times> json) list" where
  "build_manifest w base_dir pat manifest [] = Inr manifest"
| "build_manifest w base_dir pat manifest (name # names) =
     (if \<not> endswith name pat then build_manifest w base_dir pat manifest names
      else if \<not> isfile w (join base_dir name)
      then build_manifest w base_dir pat manifest names
      else
        case os_stat w (join base_dir name) of
          Inl e \<Rightarrow> Inl e
        | Inr st \<Rightarrow>
            (case iso8601_utc (st_mtime st) of
               Inl e \<Rightarrow> Inl e
             | Inr mt \<Rightarrow>
                 (case sha256_file w (join base_dir name) of
                    Inl e \<Rightarrow> Inl e
                  | Inr digest \<Rightarrow>
                      build_manifest w base_dir pat
                        (dict_set manifest name (entry digest (st_size st) mt)) names)))"

text \<open>
  What a run leaves behind: how the process ended, what it printed, and the file
  system. The traceback that the interpreter prints for an uncaught exception is not
  modelled; its exit status is 1.
\<close>

datatype status = SysExit nat | Raised exc | Returned

record run =
  status :: status
  stderr :: pystr
  stdout :: pystr
  after :: world

definition exit_status :: "status \<Rightarrow> nat" where
  "exit_status s = (case s of SysExit n \<Rightarrow> n | Raised e \<Rightarrow> 1 | Returned \<Rightarrow> 0)"

definition default_out :: "pystr \<Rightarrow> pystr" where
  "default_out base_dir = join base_dir (str ''packs_manifest.json'')"

definition out_path_of :: "args \<Rightarrow> pystr \<Rightarrow> pystr" where
  "out_path_of a base_dir =
     (case a_out a of
        None \<Rightarrow> default_out base_dir
      | Some p \<Rightarrow> if p = [] then default_out base_dir else p)"

definition rendered :: "bool \<Rightarrow> (pystr \<times> json) list \<Rightarrow> bytes" where
  "rendered pretty manifest = dumps pretty manifest @ [newline]"

text \<open>Lines 43 to 63 of the program: the listing, sorted, and the loop over it.\<close>

definition scan :: "world \<Rightarrow> pystr \<Rightarrow> pystr \<Rightarrow> exc + (pystr \<times> json) list" where
  "scan w base_dir pat =
     (case listdir w base_dir of
        Inl e \<Rightarrow> Inl e
      | Inr names \<Rightarrow> build_manifest w base_dir pat [] (sort names))"

definition uncaught :: "exc \<Rightarrow> world \<Rightarrow> run" where
  "uncaught e w = \<lparr>status = Raised e, stderr = [], stdout = [], after = w\<rparr>"

definition main :: "args \<Rightarrow> world \<Rightarrow> run" where
  "main a w =
     (let base_dir = abspath w (a_dir a)
      in if \<not> isdir w base_dir
         then \<lparr>status = SysExit 1,
                stderr = str ''[ERR] Not a directory: '' @ base_dir @ [10],
                stdout = [], after = w\<rparr>
         else
           let out_path = out_path_of a base_dir
           in case scan w base_dir (a_pattern a) of
                Inl e \<Rightarrow> uncaught e w
              | Inr manifest \<Rightarrow>
                  (case write_text w out_path (rendered (a_pretty a) manifest) of
                     Inl e \<Rightarrow> uncaught e w
                   | Inr w' \<Rightarrow>
                       \<lparr>status = Returned, stderr = [],
                        stdout = str ''[OK] Wrote '' @ out_path @ str '' with ''
                          @ str (dec (length manifest)) @ str '' entries.'' @ [10],
                        after = w'\<rparr>))"


section \<open>Notions used in the statements\<close>

text \<open>
  A name that a directory entry can have; the names that pass the two tests of the loop;
  what lines 50 to 63 compute for one path; a regular file that cannot be opened or
  cannot be read to its end; a path whose node is a regular file, whether or not it can be
  stat-ed; and the lookup \<^verbatim>\<open>d[k]\<close> in a serialisable dictionary.
\<close>

definition valid_name :: "pystr \<Rightarrow> bool" where
  "valid_name n = (n \<noteq> [] \<and> sep \<notin> set n)"

definition candidate :: "world \<Rightarrow> pystr \<Rightarrow> pystr \<Rightarrow> pystr \<Rightarrow> bool" where
  "candidate w base_dir pat n = (endswith n pat \<and> isfile w (join base_dir n))"

definition file_entry :: "world \<Rightarrow> pystr \<Rightarrow> exc + json" where
  "file_entry w p =
     (case os_stat w p of
        Inl e \<Rightarrow> Inl e
      | Inr st \<Rightarrow>
          (case iso8601_utc (st_mtime st) of
             Inl e \<Rightarrow> Inl e
           | Inr mt \<Rightarrow>
               (case sha256_file w p of
                  Inl e \<Rightarrow> Inl e
                | Inr digest \<Rightarrow> Inr (entry digest (st_size st) mt))))"

definition read_faulty :: "regfile \<Rightarrow> bool" where
  "read_faulty f =
     (open_fault f
      \<or> (case read_fault f of None \<Rightarrow> False | Some k \<Rightarrow> k \<le> length (content f)))"

definition is_regular :: "world \<Rightarrow> pystr \<Rightarrow> bool" where
  "is_regular w p = (case map_of (nodes w) p of Some (Regular f) \<Rightarrow> True | _ \<Rightarrow> False)"

definition jget :: "json \<Rightarrow> pystr \<Rightarrow> json option" where
  "jget v k = (case v of JObj kvs \<Rightarrow> map_of kvs k | _ \<Rightarrow> None)"

definition scannable :: "regfile \<Rightarrow> bool" where
  "scannable f =
     (\<not> stat_fault f \<and> \<not> read_faulty f
      \<and> (case iso8601_utc (mtime f) of Inl e \<Rightarrow> False | Inr s \<Rightarrow> True))"

definition node_scannable :: "world \<Rightarrow> pystr \<Rightarrow> bool" where
  "node_scannable w p =
     (case map_of (nodes w) p of Some (Regular f) \<Rightarrow> scannable f | _ \<Rightarrow> False)"

text \<open>
  Two worlds hold the same packs in a directory when every name that ends with the
  pattern names the same node (or no node) in both.
\<close>

definition same_packs :: "world \<Rightarrow> world \<Rightarrow> pystr \<Rightarrow> pystr \<Rightarrow> bool" where
  "same_packs w1 w2 d pat =
     (\<forall>n. valid_name n \<and> endswith n pat \<longrightarrow>
        map_of (nodes w1) (join d n) = map_of (nodes w2) (join d n))"

section \<open>Example worlds\<close>

text \<open>
  Concrete file systems on which the properties below are exercised. \<open>ex_world\<close> has a
  directory \<^verbatim>\<open>/d\<close> with two packs (listed out of order), a text file, a file whose name
  ends with \<^verbatim>\<open>pck\<close> without a dot, a file with an upper-case extension, and a
  subdirectory named \<^verbatim>\<open>sub.pck\<close>; \<^verbatim>\<open>/x\<close> is a regular file.
\<close>

definition plain_file :: "bytes \<Rightarrow> rat \<Rightarrow> regfile" where
  "plain_file c t =
     \<lparr>content = c, mtime = t, stat_fault = False, open_fault = False, read_fault = None\<rparr>"

definition ex_abspath :: "pystr \<Rightarrow> pystr" where
  "ex_abspath p = (if startswith p [sep] then p else join (str ''/home'') p)"

definition ex_nodes :: "(pystr \<times> node) list" where
  "ex_nodes =
     [(str ''/d'', Directory False),
      (str ''/d/b.pck'', Regular (plain_file ''hello'' 1700000000)),
      (str ''/d/sub.pck'', Directory False),
      (str ''/d/a.pck'', Regular (plain_file ''test'' (3 / 2))),
      (str ''/d/b.txt'', Regular (plain_file ''text'' 0)),
      (str ''/d/notapck'', Regular (plain_file [] 86400)),
      (str ''/d/foo.PCK'', Regular (plain_file ''PCK'' 86401)),
      (str ''/x'', Regular (plain_file ''old'' 0))]"

definition ex_world :: world where
  "ex_world =
     \<lparr>nodes = ex_nodes, abspath = ex_abspath, write_denied = (\<lambda>p. False), clock = 1762214400\<rparr>"

definition ex_args :: "string \<Rightarrow> string \<Rightarrow> bool \<Rightarrow> args" where
  "ex_args d pat pretty =
     \<lparr>a_dir = str d, a_out = None, a_pattern = str pat, a_pretty = pretty\<rparr>"

text \<open>
  The manifests of \<^verbatim>\<open>/d\<close> in \<open>ex_world\<close> for the patterns \<^verbatim>\<open>.pck\<close> and \<^verbatim>\<open>pck\<close>; a later
  state of the same directory, listed in another order, with an old manifest in it and
  another clock; and a state in which a third pack cannot be read to its end.
\<close>

definition ex_manifest :: "(pystr \<times> json) list" where
  "ex_manifest =
     [(str ''a.pck'', entry (sha256_hex ''test'') 4 ''1970-01-01T00:00:01Z''),
      (str ''b.pck'', entry (sha256_hex ''hello'') 5 ''2023-11-14T22:13:20Z'')]"

definition ex_manifest_pck :: "(pystr \<times> json) list" where
  "ex_manifest_pck =
     ex_manifest @ [(str ''notapck'', entry (sha256_hex []) 0 ''1970-01-02T00:00:00Z'')]"

definition ex_world_later :: world where
  "ex_world_later =
     \<lparr>nodes = (str ''/d/packs_manifest.json'', Regular (plain_file ''{}'' 1762000000))
        # rev ex_nodes,
      abspath = ex_abspath, write_denied = (\<lambda>p. False), clock = 1762300800\<rparr>"


text \<open>
  A directory whose entries can be listed but not stat-ed (a directory that may be read
  but not searched): both packs are regular files, and \<^verbatim>\<open>os.stat\<close> raises for each of
  them. Nothing can be written into it, so the run is given an output path elsewhere.
\<close>

definition ex_world_locked :: world where
  "ex_world_locked =
     \<lparr>nodes =
        [(str ''/d'', Directory False),
         (str ''/d/a.pck'', Regular ((plain_file ''test'' 0)\<lparr>stat_fault := True\<rparr>)),
         (str ''/d/b.pck'', Regular ((plain_file ''hello'' 0)\<lparr>stat_fault := True\<rparr>))],
      abspath = ex_abspath, write_denied = (\<lambda>p. startswith p (str ''/d/'')),
      clock = 1762300800\<rparr>"


section \<open>Properties\<close>

lemma startswith_iff_prefix: "startswith s p \<longleftrightarrow> prefix p s"
proof
  assume "startswith s p"
  then have "s = p @ drop (length p) s"
    by (metis append_take_drop_id startswith_def)
  then show "prefix p s"
    by (metis prefixI)
next
  assume "prefix p s"
  then show "startswith s p"
    by (auto simp: startswith_def prefix_def)
qed

subsection \<open>The output path\<close>

text \<open>
  Claim C9. When \<^verbatim>\<open>--out\<close> is the empty string the output path is the default
  \<^verbatim>\<open><dir>/packs_manifest.json\<close> under the absolute source directory, and the whole
  run is the run with \<^verbatim>\<open>--out\<close> omitted.
\<close>

theorem empty_out_is_default:
  "out_path_of (a\<lparr>a_out := Some []\<rparr>) (abspath w (a_dir a))
     = join (abspath w (a_dir a)) (str ''packs_manifest.json'')
   \<and> main (a\<lparr>a_out := Some []\<rparr>) w = main (a\<lparr>a_out := None\<rparr>) w"
  by (simp add: main_def out_path_of_def default_out_def Let_def cong: sum.case_cong)

subsection \<open>A source directory that is not a directory\<close>

text \<open>
  Claim C6. When the absolute path of \<^verbatim>\<open>--dir\<close> is not an existing directory, the run
  prints the error line on the error stream, exits with status 1, and leaves the file
  system as it was: no output file is created or modified.
\<close>

theorem not_a_directory_exits_1:
  assumes "\<not> isdir w (abspath w (a_dir a))"
  shows "status (main a w) = SysExit 1
    \<and> exit_status (status (main a w)) = 1
    \<and> stderr (main a w) = str ''[ERR] Not a directory: '' @ abspath w (a_dir a) @ [10]
    \<and> stdout (main a w) = []
    \<and> after (main a w) = w"
  using assms by (simp add: main_def exit_status_def Let_def)

theorem not_a_directory_witness:
  "\<not> isdir ex_world (abspath ex_world (a_dir (ex_args ''/x'' ''.pck'' True)))
   \<and> \<not> isdir ex_world (abspath ex_world (a_dir (ex_args ''/nowhere'' ''.pck'' True)))
   \<and> status (main (ex_args ''/x'' ''.pck'' True) ex_world) = SysExit 1
   \<and> status (main (ex_args ''/nowhere'' ''.pck'' True) ex_world) = SysExit 1
   \<and> after (main (ex_args ''/x'' ''.pck'' True) ex_world) = ex_world
   \<and> after (main (ex_args ''/nowhere'' ''.pck'' True) ex_world) = ex_world"
proof -
  have x: "\<not> isdir ex_world (abspath ex_world (a_dir (ex_args ''/x'' ''.pck'' True)))"
    by (simp add: isdir_def ex_world_def ex_nodes_def ex_args_def ex_abspath_def
        startswith_def sep_def str_def)
  have n: "\<not> isdir ex_world (abspath ex_world (a_dir (ex_args ''/nowhere'' ''.pck'' True)))"
    by (simp add: isdir_def ex_world_def ex_nodes_def ex_args_def ex_abspath_def
        startswith_def sep_def str_def)
  show ?thesis
    using x n not_a_directory_exits_1 [OF x] not_a_directory_exits_1 [OF n]
    by simp
qed

lemma endswith_iff_suffix: "endswith s p \<longleftrightarrow> suffix p s"
proof
  assume "endswith s p"
  then have "s = take (length s - length p) s @ p"
    by (metis append_take_drop_id endswith_def)
  then show "suffix p s"
    by (metis suffixI)
next
  assume "suffix p s"
  then show "endswith s p"
    by (auto simp: endswith_def suffix_def)
qed

lemma join_name:
  assumes "n \<noteq> []" and "sep \<notin> set n"
  shows "join d n = join d [] @ n"
proof -
  from assms have "\<not> startswith n [sep]"
    by (cases n) (auto simp: startswith_def)
  moreover have "\<not> startswith ([] :: pystr) [sep]"
    by (simp add: startswith_def)
  ultimately show ?thesis
    by (simp add: join_def)
qed

lemma child_name_join:
  assumes "n \<noteq> []" and "sep \<notin> set n"
  shows "child_name d (join d n) = Some n"
  using assms by (simp add: child_name_def join_name startswith_def Let_def)

lemma child_name_Some:
  assumes "child_name d p = Some n"
  shows "p = join d n \<and> n \<noteq> [] \<and> sep \<notin> set n"
proof -
  from assms have n: "n = drop (length (join d [])) p" and ne: "n \<noteq> []" and s: "sep \<notin> set n"
    and pre: "startswith p (join d [])"
    by (auto simp: child_name_def Let_def split: if_splits)
  from pre have "p = join d [] @ n"
    unfolding n by (metis append_take_drop_id startswith_def)
  with ne s show ?thesis
    by (simp add: join_name)
qed

lemma listdir_set:
  assumes "listdir w d = Inr ns"
  shows "set ns = {n. n \<noteq> [] \<and> sep \<notin> set n \<and> join d n \<in> fst ` set (nodes w)}"
    and "distinct ns"
proof -
  from assms have ns: "ns = remdups (List.map_filter (child_name d) (map fst (nodes w)))"
    by (auto simp: listdir_def split: option.splits node.splits if_splits)
  show "distinct ns"
    by (simp add: ns)
  show "set ns = {n. n \<noteq> [] \<and> sep \<notin> set n \<and> join d n \<in> fst ` set (nodes w)}"
  proof (intro set_eqI iffI)
    fix n assume "n \<in> set ns"
    then obtain p where p: "p \<in> fst ` set (nodes w)" and c: "child_name d p = Some n"
      by (force simp: ns map_filter_def image_iff)
    from child_name_Some [OF c] p
    show "n \<in> {n. n \<noteq> [] \<and> sep \<notin> set n \<and> join d n \<in> fst ` set (nodes w)}"
      by auto
  next
    fix n assume "n \<in> {n. n \<noteq> [] \<and> sep \<notin> set n \<and> join d n \<in> fst ` set (nodes w)}"
    then have v: "n \<noteq> []" "sep \<notin> set n" and p: "join d n \<in> fst ` set (nodes w)"
      by auto
    from child_name_join [OF v] p show "n \<in> set ns"
      by (force simp: ns map_filter_def image_iff)
  qed
qed

declare read_loop.simps [simp del]

lemma read_loop_ok:
  assumes "case read_fault f of None \<Rightarrow> True | Some k \<Rightarrow> length (content f) < k" and "0 < n"
    and "pos \<le> length (content f)"
  shows "read_loop f n pos h = Inr (h @ drop pos (content f))"
  using assms
proof (induction f n pos h rule: read_loop.induct)
  case (1 f n pos h)
  show ?case
  proof (cases "length (content f) \<le> pos")
    case True
    with "1.prems" have "fread f pos n = Inr []"
      by (auto simp: fread_def split: option.splits)
    with True show ?thesis
      by (subst read_loop.simps) simp
  next
    case False
    define chunk where "chunk = take n (drop pos (content f))"
    from False "1.prems" have r: "fread f pos n = Inr chunk"
      by (auto simp: fread_def chunk_def split: option.splits)
    from False "1.prems" have ne: "chunk \<noteq> []"
      by (auto simp: chunk_def)
    have "pos + length chunk \<le> length (content f)"
      using False by (simp add: chunk_def)
    then have "read_loop f n (pos + length chunk) (sha_update h chunk)
        = Inr (sha_update h chunk @ drop (pos + length chunk) (content f))"
      using "1.IH" [OF r ne] "1.prems" by simp
    moreover have "chunk @ drop (pos + length chunk) (content f) = drop pos (content f)"
    proof -
      have "drop (pos + length chunk) (content f) = drop (length chunk) (drop pos (content f))"
        by (simp add: add.commute)
      moreover have "take n d @ drop (length (take n d)) d = d" for d :: bytes
        by (cases "n \<le> length d") (simp_all add: min_def)
      ultimately show ?thesis
        by (simp only: chunk_def)
    qed
    ultimately show ?thesis
      using r ne by (subst read_loop.simps) (simp add: sha_update_def)
  qed
qed

lemma read_loop_fault:
  assumes "read_fault f = Some k" and "k \<le> length (content f)" and "0 < n"
  shows "read_loop f n pos h = Inl OSError"
  using assms
proof (induction f n pos h rule: read_loop.induct)
  case (1 f n pos h)
  show ?case
  proof (cases "k \<le> pos")
    case True
    with "1.prems" have "fread f pos n = Inl OSError"
      by (simp add: fread_def)
    then show ?thesis
      by (subst read_loop.simps) simp
  next
    case False
    define chunk where "chunk = take n (drop pos (content f))"
    from False "1.prems" have r: "fread f pos n = Inr chunk"
      by (auto simp: fread_def chunk_def)
    from False "1.prems" have ne: "chunk \<noteq> []"
      by (auto simp: chunk_def)
    from "1.IH" [OF r ne] "1.prems" r ne show ?thesis
      by (subst read_loop.simps) simp
  qed
qed

lemma sha256_file_regular:
  assumes "map_of (nodes w) p = Some (Regular f)"
  shows "sha256_file w p =
    (if open_fault f \<or> (case read_fault f of None \<Rightarrow> False | Some k \<Rightarrow> k \<le> length (content f))
     then Inl OSError else Inr (sha256_hex (content f)))"
proof (cases "read_fault f")
  case None
  then have "read_loop f (1024 * 1024) 0 sha256_new = Inr (sha256_new @ drop 0 (content f))"
    by (intro read_loop_ok) auto
  with None assms show ?thesis
    by (simp add: sha256_file_def open_rb_def hexdigest_def sha256_new_def)
next
  case (Some k)
  show ?thesis
  proof (cases "k \<le> length (content f)")
    case True
    with Some have "read_loop f (1024 * 1024) 0 sha256_new = Inl OSError"
      by (intro read_loop_fault) auto
    with Some True assms show ?thesis
      by (simp add: sha256_file_def open_rb_def)
  next
    case False
    with Some have "read_loop f (1024 * 1024) 0 sha256_new = Inr (sha256_new @ drop 0 (content f))"
      by (intro read_loop_ok) auto
    with Some False assms show ?thesis
      by (simp add: sha256_file_def open_rb_def hexdigest_def sha256_new_def)
  qed
qed

lemma file_entry_regular:
  assumes "map_of (nodes w) p = Some (Regular f)"
  shows "file_entry w p =
    (if stat_fault f then Inl OSError
     else case iso8601_utc (mtime f) of
       Inl e \<Rightarrow> Inl e
     | Inr mt \<Rightarrow>
         if read_faulty f then Inl OSError
         else Inr (entry (sha256_hex (content f)) (length (content f)) mt))"
  using assms
  by (simp add: file_entry_def os_stat_def sha256_file_regular read_faulty_def
      split: sum.splits)

lemma build_manifest_step:
  "build_manifest w b pat m (n # ns) =
     (if \<not> candidate w b pat n then build_manifest w b pat m ns
      else case file_entry w (join b n) of
        Inl e \<Rightarrow> Inl e
      | Inr e \<Rightarrow> build_manifest w b pat (dict_set m n e) ns)"
  by (simp add: candidate_def file_entry_def split: sum.splits)

lemma dict_set_keys:
  "map fst (dict_set m k v) = (if k \<in> fst ` set m then map fst m else map fst m @ [k])"
  by (induction m) (auto simp: dict_set_def)

lemma dict_set_mem:
  "(k', v') \<in> set (dict_set m k v) \<Longrightarrow> (k', v') = (k, v) \<or> (k', v') \<in> set m"
  by (induction m) (auto simp: dict_set_def split: if_splits)

lemma dict_set_lookup: "map_of (dict_set m k v) = (map_of m)(k \<mapsto> v)"
  by (simp add: dict_set_def update_conv')

lemma build_manifest_keys:
  assumes "build_manifest w b pat m ns = Inr m'" and "distinct ns"
    and "set ns \<inter> fst ` set m = {}"
  shows "map fst m' = map fst m @ filter (candidate w b pat) ns"
  using assms
proof (induction ns arbitrary: m)
  case Nil
  then show ?case by simp
next
  case (Cons n ns)
  show ?case
  proof (cases "candidate w b pat n")
    case False
    with Cons show ?thesis
      by (simp add: build_manifest_step del: build_manifest.simps)
  next
    case True
    with Cons.prems obtain e where e: "file_entry w (join b n) = Inr e"
      and r: "build_manifest w b pat (dict_set m n e) ns = Inr m'"
      by (auto simp: build_manifest_step simp del: build_manifest.simps split: sum.splits)
    from Cons.prems have k: "map fst (dict_set m n e) = map fst m @ [n]"
      by (auto simp: dict_set_keys)
    have "fst ` set (dict_set m n e) = set (map fst m @ [n])"
      unfolding k [symmetric] by simp
    with Cons.prems have "set ns \<inter> fst ` set (dict_set m n e) = {}"
      by auto
    with Cons.IH [OF r] Cons.prems True k show ?thesis
      by simp
  qed
qed

lemma build_manifest_entries:
  assumes "build_manifest w b pat m ns = Inr m'" and "(n, e) \<in> set m'"
  shows "(n, e) \<in> set m
    \<or> (n \<in> set ns \<and> candidate w b pat n \<and> file_entry w (join b n) = Inr e)"
  using assms
proof (induction ns arbitrary: m)
  case Nil
  then show ?case by simp
next
  case (Cons x ns)
  show ?case
  proof (cases "candidate w b pat x")
    case False
    with Cons show ?thesis
      by (auto simp: build_manifest_step simp del: build_manifest.simps)
  next
    case True
    with Cons.prems obtain e' where e': "file_entry w (join b x) = Inr e'"
      and r: "build_manifest w b pat (dict_set m x e') ns = Inr m'"
      by (auto simp: build_manifest_step simp del: build_manifest.simps split: sum.splits)
    from Cons.IH [OF r Cons.prems(2)] True e' show ?thesis
      by (auto dest: dict_set_mem)
  qed
qed

lemma build_manifest_total:
  assumes "\<forall>n\<in>set ns. candidate w b pat n \<longrightarrow> (\<exists>e. file_entry w (join b n) = Inr e)"
  shows "\<exists>m'. build_manifest w b pat m ns = Inr m'"
  using assms
proof (induction ns arbitrary: m)
  case Nil
  then show ?case by simp
next
  case (Cons x ns)
  then show ?case
    by (cases "candidate w b pat x")
       (auto simp: build_manifest_step simp del: build_manifest.simps)
qed


lemma build_manifest_cong:
  assumes "\<forall>n\<in>set ns. map_of (nodes w1) (join b n) = map_of (nodes w2) (join b n)"
  shows "build_manifest w1 b pat m ns = build_manifest w2 b pat m ns"
  using assms
proof (induction ns arbitrary: m)
  case Nil
  then show ?case by simp
next
  case (Cons x ns)
  then have x: "map_of (nodes w1) (join b x) = map_of (nodes w2) (join b x)"
    by simp
  have "sha256_file w1 (join b x) = sha256_file w2 (join b x)"
    and "os_stat w1 (join b x) = os_stat w2 (join b x)"
    and c: "candidate w1 b pat x = candidate w2 b pat x"
    by (simp_all add: sha256_file_def open_rb_def os_stat_def candidate_def isfile_def x)
  then have "file_entry w1 (join b x) = file_entry w2 (join b x)"
    by (simp add: file_entry_def cong: sum.case_cong)
  note c this
  with Cons show ?case
    by (simp add: build_manifest_step del: build_manifest.simps cong: sum.case_cong)
qed

lemma build_manifest_filter:
  "build_manifest w b pat m ns = build_manifest w b pat m (filter (candidate w b pat) ns)"
  by (induction ns arbitrary: m)
     (simp_all add: build_manifest_step del: build_manifest.simps cong: sum.case_cong)

lemma isfile_in_nodes: "isfile w p \<Longrightarrow> p \<in> fst ` set (nodes w)"
  by (auto simp: isfile_def image_iff split: option.splits dest!: map_of_SomeD) force

lemma candidates_of_listing:
  assumes "listdir w b = Inr ns"
  shows "set (filter (candidate w b pat) ns)
    = {n. valid_name n \<and> endswith n pat \<and> isfile w (join b n)}"
  using listdir_set(1) [OF assms]
  by (auto simp: candidate_def valid_name_def dest: isfile_in_nodes)

lemma scan_keys:
  assumes "scan w b pat = Inr m"
  shows "\<exists>ns. listdir w b = Inr ns \<and> map fst m = filter (candidate w b pat) (sort ns)"
proof -
  from assms obtain ns where ns: "listdir w b = Inr ns"
    and b: "build_manifest w b pat [] (sort ns) = Inr m"
    by (auto simp: scan_def split: sum.splits)
  from listdir_set(2) [OF ns] have "distinct (sort ns)"
    by simp
  with build_manifest_keys [OF b] ns show ?thesis
    by simp
qed

lemma scan_keys_sorted:
  assumes "scan w b pat = Inr m"
  shows "sorted (map fst m)" and "distinct (map fst m)"
    and "set (map fst m) = {n. valid_name n \<and> endswith n pat \<and> isfile w (join b n)}"
proof -
  from scan_keys [OF assms] obtain ns where ns: "listdir w b = Inr ns"
    and k: "map fst m = filter (candidate w b pat) (sort ns)"
    by blast
  show "sorted (map fst m)"
    unfolding k by (simp add: sorted_wrt_filter)
  show "distinct (map fst m)"
    unfolding k using listdir_set(2) [OF ns] by simp
  have "set (map fst m) = set (filter (candidate w b pat) ns)"
    unfolding k by simp
  with candidates_of_listing [OF ns]
  show "set (map fst m) = {n. valid_name n \<and> endswith n pat \<and> isfile w (join b n)}"
    by simp
qed

lemma scan_entries:
  assumes "scan w b pat = Inr m" and "(n, e) \<in> set m"
  shows "candidate w b pat n \<and> file_entry w (join b n) = Inr e"
proof -
  from assms obtain ns where "build_manifest w b pat [] (sort ns) = Inr m"
    by (auto simp: scan_def split: sum.splits)
  from build_manifest_entries [OF this assms(2)] show ?thesis
    by simp
qed

lemma scan_same_packs:
  assumes "same_packs w1 w2 b pat" and "listdir w1 b = Inr ns1" and "listdir w2 b = Inr ns2"
  shows "scan w1 b pat = scan w2 b pat"
proof -
  have agree: "map_of (nodes w1) (join b n) = map_of (nodes w2) (join b n)"
    if "valid_name n" and "endswith n pat" for n
    using assms(1) that by (simp add: same_packs_def)
  have c: "candidate w1 b pat n = candidate w2 b pat n" if "valid_name n" for n
    using agree [OF that] by (cases "endswith n pat") (simp_all add: candidate_def isfile_def)
  let ?c1 = "filter (candidate w1 b pat) (sort ns1)"
  let ?c2 = "filter (candidate w2 b pat) (sort ns2)"
  have "set ?c1 = set ?c2"
    using candidates_of_listing [OF assms(2), of pat] candidates_of_listing [OF assms(3), of pat] c
    by (auto simp: candidate_def)
  moreover have "sorted ?c1" "sorted ?c2"
    by (simp_all add: sorted_wrt_filter)
  moreover have "distinct ?c1" "distinct ?c2"
    using listdir_set(2) [OF assms(2)] listdir_set(2) [OF assms(3)] by simp_all
  ultimately have eq: "?c1 = ?c2"
    by (intro sorted_distinct_set_unique)
  have "\<forall>n\<in>set ?c1. map_of (nodes w1) (join b n) = map_of (nodes w2) (join b n)"
    using listdir_set(1) [OF assms(2)] agree by (auto simp: candidate_def valid_name_def)
  then have "build_manifest w1 b pat [] ?c1 = build_manifest w2 b pat [] ?c1"
    by (rule build_manifest_cong)
  then have "build_manifest w1 b pat [] (sort ns1) = build_manifest w2 b pat [] (sort ns2)"
    using build_manifest_filter [of w1 b pat "[]" "sort ns1"]
      build_manifest_filter [of w2 b pat "[]" "sort ns2"] eq
    by simp
  with assms(2,3) show ?thesis
    by (simp add: scan_def)
qed





lemma ex_listdir:
  "listdir ex_world (str ''/d'')
     = Inr [str ''b.pck'', str ''sub.pck'', str ''a.pck'', str ''b.txt'', str ''notapck'',
            str ''foo.PCK'']"
  by code_simp

lemma ex_sorted_listing:
  "sort [str ''b.pck'', str ''sub.pck'', str ''a.pck'', str ''b.txt'', str ''notapck'',
         str ''foo.PCK'']
     = [str ''a.pck'', str ''b.pck'', str ''b.txt'', str ''foo.PCK'', str ''notapck'',
        str ''sub.pck'']"
  by code_simp

lemma ex_iso:
  "iso8601_utc 1700000000 = Inr ''2023-11-14T22:13:20Z''"
  "iso8601_utc (3 / 2) = Inr ''1970-01-01T00:00:01Z''"
  "iso8601_utc 86400 = Inr ''1970-01-02T00:00:00Z''"
  by code_simp+

lemma ex_candidates:
  "filter (candidate ex_world (str ''/d'') (str ''.pck''))
     [str ''a.pck'', str ''b.pck'', str ''b.txt'', str ''foo.PCK'', str ''notapck'',
      str ''sub.pck'']
   = [str ''a.pck'', str ''b.pck'']"
  "filter (candidate ex_world (str ''/d'') (str ''pck''))
     [str ''a.pck'', str ''b.pck'', str ''b.txt'', str ''foo.PCK'', str ''notapck'',
      str ''sub.pck'']
   = [str ''a.pck'', str ''b.pck'', str ''notapck'']"
  by code_simp+

lemma ex_nodes_at:
  "map_of (nodes ex_world) (join (str ''/d'') (str ''a.pck''))
     = Some (Regular (plain_file ''test'' (3 / 2)))"
  "map_of (nodes ex_world) (join (str ''/d'') (str ''b.pck''))
     = Some (Regular (plain_file ''hello'' 1700000000))"
  "map_of (nodes ex_world) (join (str ''/d'') (str ''notapck''))
     = Some (Regular (plain_file [] 86400))"
  by code_simp+

lemma plain_file_simps [simp]:
  "content (plain_file c t) = c" "mtime (plain_file c t) = t"
  "\<not> read_faulty (plain_file c t)" "\<not> stat_fault (plain_file c t)"
  by (simp_all add: plain_file_def read_faulty_def)

lemma ex_is_candidate:
  "candidate ex_world (str ''/d'') (str ''.pck'') (str ''a.pck'')"
  "candidate ex_world (str ''/d'') (str ''.pck'') (str ''b.pck'')"
  by code_simp+

lemma ex_names_differ: "str ''a.pck'' \<noteq> str ''b.pck''"
  by code_simp

lemma ex_file_entry_a:
  "file_entry ex_world (join (str ''/d'') (str ''a.pck''))
     = Inr (entry (sha256_hex ''test'') 4 ''1970-01-01T00:00:01Z'')"
proof -
  have l: "length ''test'' = 4"
    by simp
  have "file_entry ex_world (join (str ''/d'') (str ''a.pck''))
     = Inr (entry (sha256_hex ''test'') (length ''test'') ''1970-01-01T00:00:01Z'')"
    unfolding file_entry_regular [OF ex_nodes_at(1)]
    by (simp only: plain_file_simps ex_iso if_False sum.case)
  then show ?thesis
    unfolding l .
qed

lemma ex_file_entry_b:
  "file_entry ex_world (join (str ''/d'') (str ''b.pck''))
     = Inr (entry (sha256_hex ''hello'') 5 ''2023-11-14T22:13:20Z'')"
proof -
  have l: "length ''hello'' = 5"
    by simp
  have "file_entry ex_world (join (str ''/d'') (str ''b.pck''))
     = Inr (entry (sha256_hex ''hello'') (length ''hello'') ''2023-11-14T22:13:20Z'')"
    unfolding file_entry_regular [OF ex_nodes_at(2)]
    by (simp only: plain_file_simps ex_iso if_False sum.case)
  then show ?thesis
    unfolding l .
qed

lemma ex_scan:
  "scan ex_world (str ''/d'') (str ''.pck'')
     = Inr [(str ''a.pck'', entry (sha256_hex ''test'') 4 ''1970-01-01T00:00:01Z''),
            (str ''b.pck'', entry (sha256_hex ''hello'') 5 ''2023-11-14T22:13:20Z'')]"
proof -
  let ?L = "[str ''a.pck'', str ''b.pck'', str ''b.txt'', str ''foo.PCK'', str ''notapck'',
       str ''sub.pck'']"
  have "build_manifest ex_world (str ''/d'') (str ''.pck'') [] ?L
    = build_manifest ex_world (str ''/d'') (str ''.pck'') []
        (filter (candidate ex_world (str ''/d'') (str ''.pck'')) ?L)"
    by (rule build_manifest_filter)
  also have "\<dots>
    = build_manifest ex_world (str ''/d'') (str ''.pck'') [] [str ''a.pck'', str ''b.pck'']"
    by (simp only: ex_candidates)
  also have "\<dots> = Inr [(str ''a.pck'', entry (sha256_hex ''test'') 4 ''1970-01-01T00:00:01Z''),
            (str ''b.pck'', entry (sha256_hex ''hello'') 5 ''2023-11-14T22:13:20Z'')]"
    by (simp only: build_manifest_step ex_is_candidate ex_file_entry_a ex_file_entry_b
        dict_set_def AList.update.simps fst_conv ex_names_differ build_manifest.simps(1)
        not_True_eq_False if_False if_True sum.case)
  finally show ?thesis
    by (simp only: scan_def ex_listdir ex_sorted_listing sum.case)
qed

lemma file_entry_scannable:
  assumes "map_of (nodes w) p = Some (Regular f)"
  shows "(\<exists>e. file_entry w p = Inr e) \<longleftrightarrow> scannable f"
  unfolding file_entry_regular [OF assms]
  by (auto simp: scannable_def read_faulty_def split: sum.splits)

lemma candidate_node_scannable:
  assumes "candidate w b pat n"
  shows "(\<exists>e. file_entry w (join b n) = Inr e) \<longleftrightarrow> node_scannable w (join b n)"
proof -
  from assms obtain f where f: "map_of (nodes w) (join b n) = Some (Regular f)"
    by (auto simp: candidate_def isfile_def split: option.splits node.splits)
  from file_entry_scannable [OF f] f show ?thesis
    by (simp add: node_scannable_def)
qed

lemma scan_total:
  assumes "listdir w b = Inr ns"
    and "\<forall>n\<in>set ns. candidate w b pat n \<longrightarrow> node_scannable w (join b n)"
  shows "\<exists>m. scan w b pat = Inr m"
proof -
  have "\<forall>n\<in>set (sort ns). candidate w b pat n \<longrightarrow> (\<exists>e. file_entry w (join b n) = Inr e)"
    using assms(2) candidate_node_scannable by simp
  from build_manifest_total [OF this] assms(1) show ?thesis
    by (simp add: scan_def)
qed


lemma isfile_iff_stat: "isfile w p \<longleftrightarrow> is_regular w p \<and> (\<exists>st. os_stat w p = Inr st)"
  by (simp add: isfile_def is_regular_def os_stat_def split: option.splits node.splits)

text \<open>
  Claim C1, amended. The keys of the manifest are exactly the names of the directory that
  end with the pattern and for which \<^verbatim>\<open>os.path.isfile\<close> holds, that is, the regular files
  with such a name that can be stat-ed; a regular file whose \<^verbatim>\<open>stat\<close> raises is left out
  without an error. Entries that are not regular files are no candidates, so they cannot
  make the scan raise: it returns whenever the directory can be listed and every
  candidate can be dated and read.
\<close>

theorem manifest_keys_exact:
  "(scan w b pat = Inr m \<longrightarrow>
      set (map fst m) = {n. valid_name n \<and> endswith n pat \<and> isfile w (join b n)})
   \<and> (isfile w p \<longleftrightarrow> is_regular w p \<and> (\<exists>st. os_stat w p = Inr st))
   \<and> (listdir w b = Inr ns
        \<and> (\<forall>n\<in>set ns. endswith n pat \<and> isfile w (join b n) \<longrightarrow> node_scannable w (join b n))
      \<longrightarrow> (\<exists>m'. scan w b pat = Inr m'))"
proof (intro conjI impI)
  assume "scan w b pat = Inr m"
  then show "set (map fst m) = {n. valid_name n \<and> endswith n pat \<and> isfile w (join b n)}"
    by (rule scan_keys_sorted(3))
next
  show "isfile w p \<longleftrightarrow> is_regular w p \<and> (\<exists>st. os_stat w p = Inr st)"
    by (rule isfile_iff_stat)
next
  assume "listdir w b = Inr ns
    \<and> (\<forall>n\<in>set ns. endswith n pat \<and> isfile w (join b n) \<longrightarrow> node_scannable w (join b n))"
  then show "\<exists>m'. scan w b pat = Inr m'"
    by (intro scan_total [of w b ns]) (auto simp: candidate_def)
qed

lemma ex_all_scannable:
  "\<forall>n\<in>set [str ''b.pck'', str ''sub.pck'', str ''a.pck'', str ''b.txt'', str ''notapck'',
            str ''foo.PCK''].
      endswith n (str ''.pck'') \<and> isfile ex_world (join (str ''/d'') n)
        \<longrightarrow> node_scannable ex_world (join (str ''/d'') n)"
  by code_simp

lemma ex_subdirectory:
  "isdir ex_world (join (str ''/d'') (str ''sub.pck''))"
  "endswith (str ''sub.pck'') (str ''.pck'')"
  by code_simp+

theorem manifest_keys_witness:
  "(\<exists>m. scan ex_world (str ''/d'') (str ''.pck'') = Inr m
        \<and> set (map fst m) = {str ''a.pck'', str ''b.pck''})
   \<and> {n. valid_name n \<and> endswith n (str ''.pck'') \<and> isfile ex_world (join (str ''/d'') n)}
       = {str ''a.pck'', str ''b.pck''}
   \<and> isdir ex_world (join (str ''/d'') (str ''sub.pck''))
   \<and> endswith (str ''sub.pck'') (str ''.pck'')"
proof -
  note inst = manifest_keys_exact [where w = ex_world and b = "str ''/d''"
      and pat = "str ''.pck''"
      and ns = "[str ''b.pck'', str ''sub.pck'', str ''a.pck'', str ''b.txt'', str ''notapck'',
        str ''foo.PCK'']"]
  from inst ex_listdir ex_all_scannable
  obtain m where m: "scan ex_world (str ''/d'') (str ''.pck'') = Inr m"
    by blast
  with inst [where m = m]
  have k: "set (map fst m)
      = {n. valid_name n \<and> endswith n (str ''.pck'') \<and> isfile ex_world (join (str ''/d'') n)}"
    by blast
  from m have "set (map fst m) = {str ''a.pck'', str ''b.pck''}"
    unfolding ex_scan by auto
  with m k ex_subdirectory show ?thesis
    by auto
qed

text \<open>
  The claim as it is worded fails on the directory that cannot be searched: its two packs
  are regular files whose names end with the pattern, and the manifest is empty.
\<close>

theorem regular_file_left_out:
  "listdir ex_world_locked (str ''/d'') = Inr [str ''a.pck'', str ''b.pck'']
   \<and> scan ex_world_locked (str ''/d'') (str ''.pck'') = Inr []
   \<and> valid_name (str ''a.pck'') \<and> endswith (str ''a.pck'') (str ''.pck'')
   \<and> is_regular ex_world_locked (join (str ''/d'') (str ''a.pck''))
   \<and> \<not> isfile ex_world_locked (join (str ''/d'') (str ''a.pck''))
   \<and> set (map fst ([] :: (pystr \<times> json) list))
       \<noteq> {n. valid_name n \<and> endswith n (str ''.pck'')
              \<and> is_regular ex_world_locked (join (str ''/d'') n)}"
proof -
  have f: "listdir ex_world_locked (str ''/d'') = Inr [str ''a.pck'', str ''b.pck'']"
    "scan ex_world_locked (str ''/d'') (str ''.pck'') = Inr []"
    "valid_name (str ''a.pck'')" "endswith (str ''a.pck'') (str ''.pck'')"
    "is_regular ex_world_locked (join (str ''/d'') (str ''a.pck''))"
    "\<not> isfile ex_world_locked (join (str ''/d'') (str ''a.pck''))"
    by code_simp+
  from f(3,4,5) have "str ''a.pck'' \<in> {n. valid_name n \<and> endswith n (str ''.pck'')
      \<and> is_regular ex_world_locked (join (str ''/d'') n)}"
    by simp
  then have "set (map fst ([] :: (pystr \<times> json) list))
       \<noteq> {n. valid_name n \<and> endswith n (str ''.pck'')
              \<and> is_regular ex_world_locked (join (str ''/d'') n)}"
    by force
  with f show ?thesis
    by blast
qed

text \<open>
  Claim C4. A name is tested with a literal, case-sensitive comparison of its tail:
  it ends with the pattern exactly when it is some string followed by the pattern. So
  \<^verbatim>\<open>notapck\<close> matches the pattern \<^verbatim>\<open>pck\<close> and \<^verbatim>\<open>foo.PCK\<close> does not match \<^verbatim>\<open>.pck\<close>; and a
  regular file of the directory is a key of the manifest exactly when its name ends with
  the pattern.
\<close>

theorem suffix_match_decides:
  "(endswith n pat \<longleftrightarrow> (\<exists>u. n = u @ pat))
   \<and> endswith (str ''notapck'') (str ''pck'')
   \<and> \<not> endswith (str ''foo.PCK'') (str ''.pck'')
   \<and> (scan w b pat = Inr m \<and> valid_name n \<and> isfile w (join b n)
        \<longrightarrow> (n \<in> set (map fst m) \<longleftrightarrow> (\<exists>u. n = u @ pat)))"
proof -
  have e: "endswith n pat \<longleftrightarrow> (\<exists>u. n = u @ pat)"
    by (simp add: endswith_iff_suffix suffix_def)
  have "endswith (str ''notapck'') (str ''pck'')"
    and "\<not> endswith (str ''foo.PCK'') (str ''.pck'')"
    by code_simp+
  moreover have "n \<in> set (map fst m) \<longleftrightarrow> (\<exists>u. n = u @ pat)"
    if "scan w b pat = Inr m" and "valid_name n" and "isfile w (join b n)"
    using scan_keys_sorted(3) [OF that(1)] that(2,3) e by auto
  ultimately show ?thesis
    using e by blast
qed


lemma isdir_listdir: "isdir w d \<Longrightarrow> (\<exists>ns. listdir w d = Inr ns) \<or> listdir w d = Inl OSError"
  by (auto simp: listdir_def isdir_def split: option.splits node.splits if_splits)

lemma scan_listdir: "scan w b pat = Inr m \<Longrightarrow> \<exists>ns. listdir w b = Inr ns"
  by (auto simp: scan_def split: sum.splits)





lemma ex_scan_manifest: "scan ex_world (str ''/d'') (str ''.pck'') = Inr ex_manifest"
  by (simp only: ex_scan ex_manifest_def)

lemma ex_is_candidate_pck:
  "candidate ex_world (str ''/d'') (str ''pck'') (str ''a.pck'')"
  "candidate ex_world (str ''/d'') (str ''pck'') (str ''b.pck'')"
  "candidate ex_world (str ''/d'') (str ''pck'') (str ''notapck'')"
  by code_simp+

lemma ex_names_differ_pck:
  "str ''a.pck'' \<noteq> str ''notapck''" "str ''b.pck'' \<noteq> str ''notapck''"
  by code_simp+

lemma ex_file_entry_n:
  "file_entry ex_world (join (str ''/d'') (str ''notapck''))
     = Inr (entry (sha256_hex []) 0 ''1970-01-02T00:00:00Z'')"
proof -
  have l: "length ([] :: bytes) = 0"
    by simp
  have "file_entry ex_world (join (str ''/d'') (str ''notapck''))
     = Inr (entry (sha256_hex []) (length ([] :: bytes)) ''1970-01-02T00:00:00Z'')"
    unfolding file_entry_regular [OF ex_nodes_at(3)]
    by (simp only: plain_file_simps ex_iso if_False sum.case)
  then show ?thesis
    unfolding l .
qed

lemma ex_scan_pck: "scan ex_world (str ''/d'') (str ''pck'') = Inr ex_manifest_pck"
proof -
  let ?L = "[str ''a.pck'', str ''b.pck'', str ''b.txt'', str ''foo.PCK'', str ''notapck'',
       str ''sub.pck'']"
  have "build_manifest ex_world (str ''/d'') (str ''pck'') [] ?L
    = build_manifest ex_world (str ''/d'') (str ''pck'') []
        (filter (candidate ex_world (str ''/d'') (str ''pck'')) ?L)"
    by (rule build_manifest_filter)
  also have "\<dots>
    = build_manifest ex_world (str ''/d'') (str ''pck'') []
        [str ''a.pck'', str ''b.pck'', str ''notapck'']"
    by (simp only: ex_candidates)
  also have "\<dots> = Inr ex_manifest_pck"
    by (simp only: build_manifest_step ex_is_candidate_pck ex_file_entry_a ex_file_entry_b
        ex_file_entry_n dict_set_def AList.update.simps fst_conv ex_names_differ
        ex_names_differ_pck build_manifest.simps(1) not_True_eq_False if_False if_True
        sum.case ex_manifest_pck_def ex_manifest_def append.simps)
  finally show ?thesis
    by (simp only: scan_def ex_listdir ex_sorted_listing sum.case)
qed

lemma ex_match_facts:
  "valid_name (str ''notapck'')" "isfile ex_world (join (str ''/d'') (str ''notapck''))"
  "valid_name (str ''foo.PCK'')" "isfile ex_world (join (str ''/d'') (str ''foo.PCK''))"
  by code_simp+

theorem suffix_match_witness:
  "scan ex_world (str ''/d'') (str ''pck'') = Inr ex_manifest_pck
   \<and> valid_name (str ''notapck'') \<and> isfile ex_world (join (str ''/d'') (str ''notapck''))
   \<and> str ''notapck'' \<in> set (map fst ex_manifest_pck)
   \<and> (\<exists>u. str ''notapck'' = u @ str ''pck'')
   \<and> scan ex_world (str ''/d'') (str ''.pck'') = Inr ex_manifest
   \<and> valid_name (str ''foo.PCK'') \<and> isfile ex_world (join (str ''/d'') (str ''foo.PCK''))
   \<and> str ''foo.PCK'' \<notin> set (map fst ex_manifest)
   \<and> \<not> (\<exists>u. str ''foo.PCK'' = u @ str ''.pck'')"
proof -
  note a = suffix_match_decides [of "str ''notapck''" "str ''pck''" ex_world "str ''/d''"
      ex_manifest_pck]
  note b = suffix_match_decides [of "str ''foo.PCK''" "str ''.pck''" ex_world "str ''/d''"
      ex_manifest]
  from a have a1: "\<exists>u. str ''notapck'' = u @ str ''pck''"
    by blast
  with a ex_scan_pck ex_match_facts(1,2)
  have a2: "str ''notapck'' \<in> set (map fst ex_manifest_pck)"
    by blast
  from b have b1: "\<not> (\<exists>u. str ''foo.PCK'' = u @ str ''.pck'')"
    by blast
  with b ex_scan_manifest ex_match_facts(3,4)
  have b2: "str ''foo.PCK'' \<notin> set (map fst ex_manifest)"
    by blast
  from a1 a2 b1 b2 ex_scan_pck ex_scan_manifest ex_match_facts show ?thesis
    by blast
qed

lemma join_inject:
  assumes "valid_name n" and "valid_name n'" and "join d n = join d n'"
  shows "n = n'"
  using assms by (simp add: valid_name_def join_name)


text \<open>
  Claim C10. The keys of the manifest are in strictly increasing order, and without
  \<^verbatim>\<open>--pretty\<close> the items are written in the order of the dictionary; so the keys
  appear sorted in the output, and a scan of another state of the directory with the
  same packs gives the same manifest, hence the same text.
\<close>

theorem compact_keys_sorted:
  assumes "scan w1 b pat = Inr m"
    and "same_packs w1 w2 b pat" and "listdir w2 b = Inr ns2"
  shows "sorted (map fst m) \<and> distinct (map fst m)
    \<and> dumps False m =
        (if m = [] then ''{}''
         else ''{'' @ py_join '', ''
                (map (\<lambda>kv. encode_str (fst kv) @ '': '' @ encode None False 1 (snd kv)) m)
              @ ''}'')
    \<and> scan w2 b pat = Inr m
    \<and> rendered False m = dumps False m @ [newline]"
proof -
  from scan_listdir [OF assms(1)] scan_same_packs [OF assms(2) _ assms(3)] assms(1)
  have "scan w2 b pat = Inr m"
    by auto
  moreover have "dumps False m =
        (if m = [] then ''{}''
         else ''{'' @ py_join '', ''
                (map (\<lambda>kv. encode_str (fst kv) @ '': '' @ encode None False 1 (snd kv)) m)
              @ ''}'')"
    by (simp add: dumps_def newline_indent_def item_separator_def)
  ultimately show ?thesis
    using scan_keys_sorted(1,2) [OF assms(1)] by (simp add: rendered_def)
qed


lemma ex_later_same_packs: "same_packs ex_world ex_world_later (str ''/d'') (str ''.pck'')"
proof -
  have d: "distinct (map fst ex_nodes)"
    by code_simp
  then have "distinct (map fst (rev ex_nodes))"
    by (simp add: rev_map [symmetric])
  with d have r: "map_of (rev ex_nodes) = map_of ex_nodes"
    by (simp add: map_of_inject_set)
  have v: "valid_name (str ''packs_manifest.json'')"
    and j: "join (str ''/d'') (str ''packs_manifest.json'') = str ''/d/packs_manifest.json''"
    and e: "\<not> endswith (str ''packs_manifest.json'') (str ''.pck'')"
    by code_simp+
  have "map_of (nodes ex_world) (join (str ''/d'') n)
      = map_of (nodes ex_world_later) (join (str ''/d'') n)"
    if "valid_name n" and "endswith n (str ''.pck'')" for n
  proof -
    from that e have "n \<noteq> str ''packs_manifest.json''"
      by auto
    with join_inject [OF that(1) v, of "str ''/d''"] j
    have "join (str ''/d'') n \<noteq> str ''/d/packs_manifest.json''"
      by auto
    then show ?thesis
      by (simp add: ex_world_def ex_world_later_def r)
  qed
  then show ?thesis
    by (simp add: same_packs_def)
qed

lemma ex_later_listdir:
  "listdir ex_world_later (str ''/d'')
     = Inr [str ''packs_manifest.json'', str ''foo.PCK'', str ''notapck'', str ''b.txt'',
            str ''a.pck'', str ''sub.pck'', str ''b.pck'']"
  by code_simp





theorem compact_keys_witness:
  "scan ex_world (str ''/d'') (str ''.pck'') = Inr ex_manifest
   \<and> same_packs ex_world ex_world_later (str ''/d'') (str ''.pck'')
   \<and> map fst ex_manifest = [str ''a.pck'', str ''b.pck'']
   \<and> sorted (map fst ex_manifest)
   \<and> scan ex_world_later (str ''/d'') (str ''.pck'') = Inr ex_manifest"
proof -
  have "map fst ex_manifest = [str ''a.pck'', str ''b.pck'']"
    by (simp add: ex_manifest_def)
  with compact_keys_sorted [OF ex_scan_manifest ex_later_same_packs ex_later_listdir]
    ex_scan_manifest ex_later_same_packs
  show ?thesis
    by blast
qed

lemma hexdigit_lower: "hexdigit n \<in> set ''0123456789abcdef''"
proof -
  have "n mod 16 < length ''0123456789abcdef''"
    by simp
  then show ?thesis
    unfolding hexdigit_def by (rule nth_mem)
qed

lemma hex32_shape: "length (hex32 w) = 8" "set (hex32 w) \<subseteq> set ''0123456789abcdef''"
proof -
  show "length (hex32 w) = 8"
    by (simp add: hex32_def)
  show "set (hex32 w) \<subseteq> set ''0123456789abcdef''"
    unfolding hex32_def using hexdigit_lower by auto
qed

lemma sha256_hex_shape:
  "length (sha256_hex m) = 64" "set (sha256_hex m) \<subseteq> set ''0123456789abcdef''"
proof -
  obtain a b c d e f g h where s: "sha256_words m = (a, b, c, d, e, f, g, h)"
    by (cases "sha256_words m") auto
  show "length (sha256_hex m) = 64"
    by (simp add: sha256_hex_def s hex32_shape(1))
  show "set (sha256_hex m) \<subseteq> set ''0123456789abcdef''"
    unfolding sha256_hex_def s hex_state.simps set_append
    using hex32_shape(2) by blast
qed

lemma entry_lookup:
  "jget (entry d sz mt) (str ''version'') = Some (JStr (str d))"
  "jget (entry d sz mt) (str ''size'') = Some (JInt (int sz))"
  "jget (entry d sz mt) (str ''mtime'') = Some (JStr (str mt))"
  "jget (entry d sz mt) (str ''sha256'') = Some (JStr (str d))"
  by (simp_all add: jget_def entry_def str_def)

text \<open>
  Claim C2. Every entry of the manifest belongs to a regular file of the directory; its
  size is the number of bytes of the file, its version and its sha256 are the same
  string, the SHA-256 digest of the whole content in 64 lower-case hexadecimal digits,
  and the loop over the chunks of 1 MiB (or of any other positive size) feeds exactly
  the content of the file to the hash object.
\<close>

theorem entry_fields:
  assumes "scan w b pat = Inr m" and "(n, e) \<in> set m"
  shows "\<exists>f. map_of (nodes w) (join b n) = Some (Regular f)
    \<and> jget e (str ''size'') = Some (JInt (int (length (content f))))
    \<and> jget e (str ''version'') = jget e (str ''sha256'')
    \<and> jget e (str ''sha256'') = Some (JStr (str (sha256_hex (content f))))
    \<and> length (sha256_hex (content f)) = 64
    \<and> set (sha256_hex (content f)) \<subseteq> set ''0123456789abcdef''
    \<and> sha256_file w (join b n) = Inr (hexdigest (content f))
    \<and> hexdigest (content f) = sha256_hex (content f)
    \<and> read_loop f (1024 * 1024) 0 sha256_new = Inr (content f)
    \<and> (\<forall>k. 0 < k \<longrightarrow> read_loop f k 0 sha256_new = Inr (content f))"
proof -
  from scan_entries [OF assms] have c: "candidate w b pat n"
    and fe: "file_entry w (join b n) = Inr e"
    by simp_all
  from c obtain f where f: "map_of (nodes w) (join b n) = Some (Regular f)"
    by (auto simp: candidate_def isfile_def split: option.splits node.splits)
  from fe obtain mt where nf: "\<not> read_faulty f"
    and e: "e = entry (sha256_hex (content f)) (length (content f)) mt"
    unfolding file_entry_regular [OF f] by (auto split: if_splits sum.splits)
  from nf have rf: "case read_fault f of None \<Rightarrow> True | Some k \<Rightarrow> length (content f) < k"
    by (auto simp: read_faulty_def split: option.splits)
  have loop: "read_loop f k 0 sha256_new = Inr (content f)" if "0 < k" for k
    using read_loop_ok [OF rf that, of 0 sha256_new] by (simp add: sha256_new_def)
  from nf have "sha256_file w (join b n) = Inr (hexdigest (content f))"
    unfolding sha256_file_regular [OF f] by (simp add: read_faulty_def hexdigest_def)
  with f e loop sha256_hex_shape [of "content f"] show ?thesis
    by (auto simp: entry_lookup hexdigest_def)
qed

theorem entry_fields_witness:
  "scan ex_world (str ''/d'') (str ''.pck'') = Inr ex_manifest
   \<and> (str ''a.pck'', entry (sha256_hex ''test'') 4 ''1970-01-01T00:00:01Z'') \<in> set ex_manifest
   \<and> map_of (nodes ex_world) (join (str ''/d'') (str ''a.pck''))
       = Some (Regular (plain_file ''test'' (3 / 2)))
   \<and> jget (entry (sha256_hex ''test'') 4 ''1970-01-01T00:00:01Z'') (str ''size'')
       = Some (JInt 4)
   \<and> jget (entry (sha256_hex ''test'') 4 ''1970-01-01T00:00:01Z'') (str ''version'')
       = Some (JStr (str (sha256_hex ''test'')))
   \<and> jget (entry (sha256_hex ''test'') 4 ''1970-01-01T00:00:01Z'') (str ''sha256'')
       = Some (JStr (str (sha256_hex ''test'')))
   \<and> length (sha256_hex ''test'') = 64
   \<and> read_loop (plain_file ''test'' (3 / 2)) (1024 * 1024) 0 sha256_new = Inr ''test''"
proof -
  have i: "(str ''a.pck'', entry (sha256_hex ''test'') 4 ''1970-01-01T00:00:01Z'')
      \<in> set ex_manifest"
    by (simp add: ex_manifest_def)
  from entry_fields [OF ex_scan_manifest i] obtain f
    where f: "map_of (nodes ex_world) (join (str ''/d'') (str ''a.pck'')) = Some (Regular f)"
      and s: "jget (entry (sha256_hex ''test'') 4 ''1970-01-01T00:00:01Z'') (str ''size'')
        = Some (JInt (int (length (content f))))"
      and v: "jget (entry (sha256_hex ''test'') 4 ''1970-01-01T00:00:01Z'') (str ''version'')
        = jget (entry (sha256_hex ''test'') 4 ''1970-01-01T00:00:01Z'') (str ''sha256'')"
      and h: "jget (entry (sha256_hex ''test'') 4 ''1970-01-01T00:00:01Z'') (str ''sha256'')
        = Some (JStr (str (sha256_hex (content f))))"
      and l: "length (sha256_hex (content f)) = 64"
      and r: "read_loop f (1024 * 1024) 0 sha256_new = Inr (content f)"
    by blast
  from f have c: "f = plain_file ''test'' (3 / 2)"
    unfolding ex_nodes_at(1) by simp
  have c': "content (plain_file ''test'' (3 / 2)) = ''test''"
    and l': "int (length ''test'') = 4"
    by simp_all
  from s v h l r show ?thesis
    unfolding c c' l' using i ex_scan_manifest ex_nodes_at(1) by simp
qed

end
